theory Spec2Isabelle
  imports Complex_Main "HOL-Library.Word" "HOL-Library.AList" "HOL-Library.List_Lexorder"
    "HOL-Library.Char_ord"
begin

section \<open>The desktop companion: animation engine\<close>

text \<open>
  A decoded bitmap. The engine only ever reads a frame's width and height and hands
  the frame to the label; \<open>pix_id\<close> stands for the pixel content.
\<close>

record pixmap =
  pix_width :: int
  pix_height :: int
  pix_id :: nat

text \<open>
  The fields of a \<open>Buddy\<close> object whose constructor ran to its end. The dictionary
  \<open>anims\<close> is an association list in insertion order (the code iterates over it);
  \<open>rand\<close> with the cursor \<open>rand_pos\<close> is the stream of raw draws behind Python's
  \<open>random\<close> module. The two timers hold the interval they were last started with;
  \<open>behavior_starts\<close> counts the calls of \<open>behavior_timer.start\<close>, and \<open>out\<close> holds
  the \<open>PLAY\<close> lines printed so far.
\<close>

record buddy =
  anims :: "(string \<times> pixmap list) list"
  canvas_w :: int
  canvas_h :: int
  current_anim :: string
  current_frames :: "pixmap list"
  current_loop :: bool
  anim_i :: int
  frame_ms :: int
  label_pixmap :: pixmap
  label_pos :: "int \<times> int"
  anim_timer :: "int option"
  behavior_timer :: "int option"
  behavior_starts :: nat
  rand :: "nat \<Rightarrow> nat"
  rand_pos :: nat
  out :: "(string \<times> int) list"
  drag_offset :: "(int \<times> int) option"
  window_pos :: "int \<times> int"

definition TOP_PAD :: int where
  "TOP_PAD = 60"

text \<open>\<open>self.anim_speeds\<close>: set once by the constructor and never written again.\<close>

definition anim_speeds :: "(string \<times> int) list" where
  "anim_speeds = [(''idle'', 300), (''_default'', 100)]"

text \<open>\<open>d.get(k, default)\<close> on a dictionary kept as an association list.\<close>

definition dict_get :: "('k \<times> 'v) list \<Rightarrow> 'k \<Rightarrow> 'v \<Rightarrow> 'v" where
  "dict_get d k dflt = (case map_of d k of None \<Rightarrow> dflt | Some v \<Rightarrow> v)"

definition set_pixmap :: "pixmap \<Rightarrow> buddy \<Rightarrow> buddy" where
  "set_pixmap pix s =
     (let x0 = (canvas_w s - pix_width pix) div 2;
          x = (if x0 < 0 then 0 else x0);
          y0 = TOP_PAD + (canvas_h s - pix_height pix);
          y = (if y0 < TOP_PAD then TOP_PAD else y0)
      in s\<lparr>label_pixmap := pix, label_pos := (x, y)\<rparr>)"

text \<open>\<open>random.randint(lo, hi)\<close>: one draw from the stream, mapped into \<open>[lo, hi]\<close>.\<close>

definition randint :: "int \<Rightarrow> int \<Rightarrow> buddy \<Rightarrow> int \<times> buddy" where
  "randint lo hi s =
     (lo + int (rand s (rand_pos s)) mod (hi - lo + 1), s\<lparr>rand_pos := Suc (rand_pos s)\<rparr>)"

text \<open>\<open>random.choice(xs)\<close> for a non-empty list: one draw, used as an index.\<close>

definition choice :: "'a list \<Rightarrow> buddy \<Rightarrow> 'a \<times> buddy" where
  "choice xs s =
     (xs ! (rand s (rand_pos s) mod length xs), s\<lparr>rand_pos := Suc (rand_pos s)\<rparr>)"

definition schedule_next_action :: "buddy \<Rightarrow> buddy" where
  "schedule_next_action s =
     (let (delay_ms, s1) = randint 8000 25000 s
      in s1\<lparr>behavior_timer := Some delay_ms, behavior_starts := Suc (behavior_starts s1)\<rparr>)"

definition play :: "string \<Rightarrow> bool \<Rightarrow> buddy \<Rightarrow> buddy" where
  "play anim_name loop s =
     (let frames = dict_get (anims s) anim_name []
      in if frames = [] then s
         else
           let s1 = s\<lparr>current_anim := anim_name, current_frames := frames,
                      current_loop := loop, anim_i := 0\<rparr>;
               s2 = set_pixmap (current_frames s1 ! 0) s1;
               ms = dict_get anim_speeds anim_name (dict_get anim_speeds ''_default'' 0)
           in s2\<lparr>frame_ms := ms, out := out s2 @ [(anim_name, ms)], anim_timer := Some ms\<rparr>)"

definition tick_anim :: "buddy \<Rightarrow> buddy" where
  "tick_anim s =
     (if current_frames s = [] then s
      else
        let s1 = s\<lparr>anim_i := anim_i s + 1\<rparr>
        in if anim_i s1 \<ge> int (length (current_frames s1)) then
             (if current_loop s1 then
                (let s2 = s1\<lparr>anim_i := 0\<rparr>
                 in set_pixmap (current_frames s2 ! nat (anim_i s2)) s2)
              else schedule_next_action (play ''idle'' True s1))
           else set_pixmap (current_frames s1 ! nat (anim_i s1)) s1)"

definition do_random_action :: "buddy \<Rightarrow> buddy" where
  "do_random_action s =
     (let choices = [name. (name, frames) \<leftarrow> anims s, name \<noteq> ''idle'' \<and> frames \<noteq> []]
      in if choices = [] then schedule_next_action s
         else (let (name, s1) = choice choices s in play name False s1))"


text \<open>
  \<open>compute_canvas_size\<close>: the two nested loops over \<open>anims.values()\<close>, the running
  maxima starting at 1.
\<close>

definition canvas_step :: "int \<times> int \<Rightarrow> pixmap \<Rightarrow> int \<times> int" where
  "canvas_step m pix =
     (let max_w = (if pix_width pix > fst m then pix_width pix else fst m);
          max_h = (if pix_height pix > snd m then pix_height pix else snd m)
      in (max_w, max_h))"

definition compute_canvas_size :: "(string \<times> pixmap list) list \<Rightarrow> int \<times> int" where
  "compute_canvas_size d =
     fold (\<lambda>frames m. fold (\<lambda>pix m'. canvas_step m' pix) frames m) (map snd d) (1, 1)"

text \<open>
  The constructor, from the frames loaded per folder (\<open>loaded\<close>, in the order of
  \<open>list_anim_folders\<close>), the stream of random draws and the position the window system
  gave the window. Without a non-empty \<open>idle\<close> animation the constructor returns before
  any engine field or timer exists: that is \<open>None\<close>.
\<close>

definition buddy_init ::
  "(string \<times> pixmap list) list \<Rightarrow> (nat \<Rightarrow> nat) \<Rightarrow> int \<times> int \<Rightarrow> buddy option" where
  "buddy_init loaded rnd pos =
     (let d = fold (\<lambda>(name, frames) acc. AList.update name frames acc) loaded []
      in if dict_get d ''idle'' [] = [] then None
         else
           let (cw, ch) = compute_canvas_size d;
               idle = dict_get d ''idle'' [];
               ms = dict_get anim_speeds ''idle'' 0;
               s0 = \<lparr>anims = d, canvas_w = cw, canvas_h = ch, current_anim = ''idle'',
                     current_frames = idle, current_loop = True, anim_i = 0, frame_ms = ms,
                     label_pixmap = idle ! 0, label_pos = (0, 0), anim_timer = None,
                     behavior_timer = None, behavior_starts = 0, rand = rnd, rand_pos = 0,
                     out = [], drag_offset = None, window_pos = pos\<rparr>;
               s1 = set_pixmap (current_frames s0 ! 0) s0;
               s2 = s1\<lparr>anim_timer := Some (frame_ms s1)\<rparr>
           in Some (schedule_next_action s2))"

text \<open>The operations the event loop runs on the engine, and a run of them in order.\<close>

datatype engine_op = Play string bool | Tick | Fire

fun apply_op :: "engine_op \<Rightarrow> buddy \<Rightarrow> buddy" where
  "apply_op (Play name loop) s = play name loop s"
| "apply_op Tick s = tick_anim s"
| "apply_op Fire s = do_random_action s"

definition run_ops :: "engine_op list \<Rightarrow> buddy \<Rightarrow> buddy" where
  "run_ops ops s = fold apply_op ops s"

subsection \<open>Pointer events\<close>

datatype mouse_button = NoButton | LeftButton | RightButton | MiddleButton

text \<open>
  What the handlers read from a \<open>QMouseEvent\<close>: the button that caused the event, the
  buttons held while it was generated, and the global pointer position.
\<close>

record mouse_event =
  button :: mouse_button
  buttons :: "mouse_button set"
  global_pos :: "int \<times> int"

definition point_sub :: "int \<times> int \<Rightarrow> int \<times> int \<Rightarrow> int \<times> int" where
  "point_sub p q = (fst p - fst q, snd p - snd q)"

definition mousePressEvent :: "mouse_event \<Rightarrow> buddy \<Rightarrow> buddy" where
  "mousePressEvent event s =
     (if button event = LeftButton
      then s\<lparr>drag_offset := Some (point_sub (global_pos event) (window_pos s))\<rparr>
      else s)"

definition mouseMoveEvent :: "mouse_event \<Rightarrow> buddy \<Rightarrow> buddy" where
  "mouseMoveEvent event s =
     (case drag_offset s of
        None \<Rightarrow> s
      | Some off \<Rightarrow>
          if LeftButton \<in> buttons event
          then s\<lparr>window_pos := point_sub (global_pos event) off\<rparr>
          else s)"

definition mouseReleaseEvent :: "mouse_event \<Rightarrow> buddy \<Rightarrow> buddy" where
  "mouseReleaseEvent event s = s\<lparr>drag_offset := None\<rparr>"

subsection \<open>Loading the frames of one animation\<close>

text \<open>What the file system and the decoder answer for one path of the folder.\<close>

datatype file_status = Missing | Undecodable | Decodes pixmap

text \<open>
  One animation folder: the lines of \<open>order.txt\<close> (\<open>None\<close> when the file does not
  exist), the names matched by \<open>glob("*.png")\<close>, and the status of \<open>folder / name\<close>.
\<close>

record anim_folder =
  order_txt :: "string list option"
  png_glob :: "string list"
  file_at :: "string \<Rightarrow> file_status"

text \<open>The characters \<open>str.strip()\<close> removes, among the code points below 256.\<close>

definition is_space :: "char \<Rightarrow> bool" where
  "is_space c =
     (let n = of_char c :: nat
      in (9 \<le> n \<and> n \<le> 13) \<or> (28 \<le> n \<and> n \<le> 32) \<or> n = 133 \<or> n = 160)"

definition strip :: "string \<Rightarrow> string" where
  "strip l = rev (dropWhile is_space (rev (dropWhile is_space l)))"

definition startswith :: "string \<Rightarrow> string \<Rightarrow> bool" where
  "startswith l p = (take (length p) l = p)"

fun order_paths :: "string list \<Rightarrow> string list" where
  "order_paths [] = []"
| "order_paths (line # rest) =
     (let name = strip line
      in if name = [] \<or> startswith name ''#'' then order_paths rest
         else name # order_paths rest)"

fun decode_paths :: "(string \<Rightarrow> file_status) \<Rightarrow> string list \<Rightarrow> pixmap list" where
  "decode_paths look [] = []"
| "decode_paths look (p # ps) =
     (case look p of
        Missing \<Rightarrow> decode_paths look ps
      | Undecodable \<Rightarrow> decode_paths look ps
      | Decodes pix \<Rightarrow> pix # decode_paths look ps)"

definition load_frames :: "anim_folder \<Rightarrow> pixmap list" where
  "load_frames folder =
     (let paths = (case order_txt folder of
                     Some lines \<Rightarrow> order_paths lines
                   | None \<Rightarrow> sort (png_glob folder))
      in decode_paths (file_at folder) paths)"

section \<open>The chroma-key tool\<close>

datatype py_error = IndexError | ValueError | FileNotFoundError | DecodeError

type_synonym rgb = "8 word \<times> 8 word \<times> 8 word"
type_synonym rgba = "8 word \<times> 8 word \<times> 8 word \<times> 8 word"

text \<open>
  A decoded image in mode RGBA: its size and its pixel buffer, one byte per channel.
  \<open>convert("RGBA")\<close> is then a copy and \<open>convert("RGB")\<close> drops the alpha byte.
\<close>

record image =
  img_w :: nat
  img_h :: nat
  img_px :: "nat \<times> nat \<Rightarrow> rgba"

definition THRESH :: int where
  "THRESH = 35"

definition SOFT :: int where
  "SOFT = 40"

text \<open>
  The source's \<open>dist\<close> returns a Python float; the model computes in the reals. On the sums of
  squares that occur here, at most \<open>3 * 255\<^sup>2\<close>, the rounded square root lies on the
  same side of 35 and of 75 as the exact one, and the truncated feather value is the
  same.
\<close>

definition dist_rgb :: "int \<times> int \<times> int \<Rightarrow> int \<times> int \<times> int \<Rightarrow> real" where
  "dist_rgb rgb key =
     (case (rgb, key) of ((r, g, b), (kr, kg, kb)) \<Rightarrow>
        sqrt (real_of_int ((r - kr)\<^sup>2 + (g - kg)\<^sup>2 + (b - kb)\<^sup>2)))"

text \<open>Python's \<open>int(x)\<close> on a float: truncation towards zero.\<close>

definition py_int :: "real \<Rightarrow> int" where
  "py_int x = (if x \<ge> 0 then \<lfloor>x\<rfloor> else \<lceil>x\<rceil>)"

text \<open>Reading a pixel gives four Python ints; writing stores four bytes.\<close>

definition px_read :: "rgba \<Rightarrow> int \<times> int \<times> int \<times> int" where
  "px_read p = (case p of (r, g, b, a) \<Rightarrow> (uint r, uint g, uint b, uint a))"

definition px_write :: "int \<times> int \<times> int \<times> int \<Rightarrow> rgba" where
  "px_write v =
     (case v of (r, g, b, a) \<Rightarrow> (word_of_int r, word_of_int g, word_of_int b, word_of_int a))"

text \<open>The body of the two loops of \<open>blue_to_alpha\<close>, at the pixel \<open>(x, y)\<close>.\<close>

definition key_pixel ::
  "int \<times> int \<times> int \<Rightarrow> nat \<Rightarrow> nat \<Rightarrow> (nat \<times> nat \<Rightarrow> rgba) \<Rightarrow> (nat \<times> nat \<Rightarrow> rgba)" where
  "key_pixel key_rgb y x px =
     (case px_read (px (x, y)) of (r, g, b, a) \<Rightarrow>
        let d = dist_rgb (r, g, b) key_rgb
        in if d \<le> real_of_int THRESH then px((x, y) := px_write (r, g, b, 0))
           else if d < real_of_int (THRESH + SOFT) then
             (let t = (d - real_of_int THRESH) / real_of_int SOFT;
                  new_a = py_int (255 * t)
              in px((x, y) := px_write (r, g, b, min a new_a)))
           else px)"

definition blue_to_alpha :: "image \<Rightarrow> int \<times> int \<times> int \<Rightarrow> image" where
  "blue_to_alpha img key_rgb =
     (let w = img_w img; h = img_h img
      in img\<lparr>img_px :=
           fold (\<lambda>y px. fold (\<lambda>x px'. key_pixel key_rgb y x px') [0..<w] px) [0..<h]
             (img_px img)\<rparr>)"

subsection \<open>Guessing the key colour\<close>

definition raw_points :: "int \<Rightarrow> int \<Rightarrow> (int \<times> int) list" where
  "raw_points w h =
     [(0, 0), (1, 0), (0, 1),
      (w - 1, 0), (w - 2, 0), (w - 1, 1),
      (0, h - 1), (1, h - 1), (0, h - 2),
      (w - 1, h - 1), (w - 2, h - 1), (w - 1, h - 2)]"

definition clamp_point :: "int \<Rightarrow> int \<Rightarrow> int \<times> int \<Rightarrow> int \<times> int" where
  "clamp_point w h p = (max 0 (min (w - 1) (fst p)), max 0 (min (h - 1) (snd p)))"

definition samples :: "int \<Rightarrow> int \<Rightarrow> (int \<times> int) list" where
  "samples w h = map (clamp_point w h) (raw_points w h)"

text \<open>\<open>getpixel\<close> on the image converted to RGB; outside the image it raises.\<close>

definition getpixel :: "image \<Rightarrow> int \<times> int \<Rightarrow> py_error + rgb" where
  "getpixel img p =
     (if 0 \<le> fst p \<and> fst p < int (img_w img) \<and> 0 \<le> snd p \<and> snd p < int (img_h img)
      then (case img_px img (nat (fst p), nat (snd p)) of (r, g, b, a) \<Rightarrow> Inr (r, g, b))
      else Inl IndexError)"

fun getpixels :: "image \<Rightarrow> (int \<times> int) list \<Rightarrow> py_error + rgb list" where
  "getpixels img [] = Inr []"
| "getpixels img (p # ps) =
     (case getpixel img p of
        Inl e \<Rightarrow> Inl e
      | Inr c \<Rightarrow> (case getpixels img ps of Inl e \<Rightarrow> Inl e | Inr cs \<Rightarrow> Inr (c # cs)))"

text \<open>
  Python's \<open>max(iterable, key=f)\<close>: the first element, in iteration order, whose key no
  later element exceeds; \<open>ValueError\<close> on an empty iterable.
\<close>

fun max_from :: "('a \<Rightarrow> nat) \<Rightarrow> 'a \<Rightarrow> 'a list \<Rightarrow> 'a" where
  "max_from f best [] = best"
| "max_from f best (x # xs) = (if f x > f best then max_from f x xs else max_from f best xs)"

definition py_max :: "'a list \<Rightarrow> ('a \<Rightarrow> nat) \<Rightarrow> py_error + 'a" where
  "py_max xs f = (case xs of [] \<Rightarrow> Inl ValueError | x # rest \<Rightarrow> Inr (max_from f x rest))"

text \<open>
  \<open>auto_key\<close>. The order in which Python iterates over \<open>set(colors)\<close> is decided by the
  hash table, not by the program: it is the parameter \<open>set_iter\<close>, which lists the
  distinct elements of its argument in some order.
\<close>

definition auto_key :: "(rgb list \<Rightarrow> rgb list) \<Rightarrow> image \<Rightarrow> py_error + rgb" where
  "auto_key set_iter img =
     (let w = int (img_w img); h = int (img_h img)
      in case getpixels img (samples w h) of
           Inl e \<Rightarrow> Inl e
         | Inr colors \<Rightarrow> py_max (set_iter colors) (count_list colors))"

text \<open>What the claim on ties refers to: the first colour, in sample order, of top count.\<close>

definition first_most_frequent :: "'a list \<Rightarrow> 'a option" where
  "first_most_frequent cs = find (\<lambda>c. \<forall>c' \<in> set cs. count_list cs c' \<le> count_list cs c) cs"

subsection \<open>The batch run\<close>

text \<open>
  The effects of a batch run: the files saved (relative path and image, in order), the
  lines printed, and the exception that left \<open>process_folder\<close>, if any.
\<close>

datatype line = Found nat | KeyLine string rgb | Done

record batch =
  saved :: "(string \<times> image) list"
  printed :: "line list"

definition rgb_ints :: "rgb \<Rightarrow> int \<times> int \<times> int" where
  "rgb_ints c = (case c of (r, g, b) \<Rightarrow> (uint r, uint g, uint b))"

text \<open>
  The loop over the PNG files found: each with its path relative to the input folder
  and what \<open>Image.open\<close> and the decoder make of it. An exception ends the loop where
  it is raised: \<open>Inl\<close> carries it with the effects so far.
\<close>

fun process_files ::
  "(rgb list \<Rightarrow> rgb list) \<Rightarrow> bool \<Rightarrow> (string \<times> (py_error + image)) list \<Rightarrow> batch
     \<Rightarrow> (py_error \<times> batch) + batch" where
  "process_files set_iter verbose [] st = Inr st"
| "process_files set_iter verbose ((p, opened) # rest) st =
     (case opened of
        Inl e \<Rightarrow> Inl (e, st)
      | Inr img \<Rightarrow>
          (case auto_key set_iter img of
             Inl e \<Rightarrow> Inl (e, st)
           | Inr key \<Rightarrow>
               let st1 = (if verbose then st\<lparr>printed := printed st @ [KeyLine p key]\<rparr> else st);
                   out_img = blue_to_alpha img (rgb_ints key);
                   st2 = st1\<lparr>saved := saved st1 @ [(p, out_img)]\<rparr>
               in process_files set_iter verbose rest st2))"

definition process_folder ::
  "(rgb list \<Rightarrow> rgb list) \<Rightarrow> bool \<Rightarrow> (string \<times> (py_error + image)) list \<Rightarrow> bool
     \<Rightarrow> (py_error \<times> batch) + batch" where
  "process_folder set_iter in_dir_exists pngs verbose =
     (let st0 = \<lparr>saved = [], printed = []\<rparr>
      in if \<not> in_dir_exists then Inl (FileNotFoundError, st0)
         else
           let st1 = (if verbose then st0\<lparr>printed := printed st0 @ [Found (length pngs)]\<rparr>
                      else st0)
           in process_files set_iter verbose pngs st1)"

text \<open>
  The script: \<open>process_folder\<close>, then \<open>print("done")\<close>. The result is the exit status
  of the interpreter (1 after an uncaught exception) and the effects.
\<close>

definition main :: "(rgb list \<Rightarrow> rgb list) \<Rightarrow> bool \<Rightarrow> (string \<times> (py_error + image)) list
     \<Rightarrow> int \<times> batch" where
  "main set_iter in_dir_exists pngs =
     (case process_folder set_iter in_dir_exists pngs True of
        Inl (e, st) \<Rightarrow> (1, st)
      | Inr st \<Rightarrow> (0, st\<lparr>printed := printed st @ [Done]\<rparr>))"

section \<open>Invariants and example data\<close>

text \<open>
  The state in which the frame \<open>fs ! k\<close> of the running animation is on display.
\<close>

definition frame_at :: "pixmap list \<Rightarrow> nat \<Rightarrow> buddy \<Rightarrow> buddy" where
  "frame_at fs k s = set_pixmap (fs ! k) (s\<lparr>anim_i := int k\<rparr>)"

text \<open>
  The invariant of the engine state: the running sequence is not empty, it is the
  sequence loaded under the current name, and the frame index lies within it.
\<close>

definition frame_inv :: "buddy \<Rightarrow> bool" where
  "frame_inv s =
     (current_frames s \<noteq> [] \<and> 0 \<le> anim_i s \<and> anim_i s < int (length (current_frames s)) \<and>
      dict_get (anims s) (current_anim s) [] = current_frames s)"

text \<open>
  What the constructor establishes on top of it: the keys of the dictionary are
  distinct and \<open>idle\<close> is loaded with at least one frame.
\<close>

definition engine_inv :: "buddy \<Rightarrow> bool" where
  "engine_inv s =
     (distinct (map fst (anims s)) \<and> dict_get (anims s) ''idle'' [] \<noteq> [] \<and> frame_inv s)"

text \<open>
  An example: an empty folder, \<open>idle\<close> with two frames and \<open>wave\<close> with four, and
  the state the constructor builds from them.
\<close>

definition demo_idle :: "pixmap list" where
  "demo_idle = [\<lparr>pix_width = 64, pix_height = 64, pix_id = 0\<rparr>,
                \<lparr>pix_width = 64, pix_height = 64, pix_id = 1\<rparr>]"

definition demo_wave :: "pixmap list" where
  "demo_wave = [\<lparr>pix_width = 80, pix_height = 72, pix_id = 10\<rparr>,
                \<lparr>pix_width = 80, pix_height = 72, pix_id = 11\<rparr>,
                \<lparr>pix_width = 80, pix_height = 72, pix_id = 12\<rparr>,
                \<lparr>pix_width = 80, pix_height = 72, pix_id = 13\<rparr>]"

definition demo_loaded :: "(string \<times> pixmap list) list" where
  "demo_loaded = [(''empty'', []), (''idle'', demo_idle), (''wave'', demo_wave)]"

definition demo_buddy :: buddy where
  "demo_buddy =
     \<lparr>anims = demo_loaded, canvas_w = 80, canvas_h = 72, current_anim = ''idle'',
      current_frames = demo_idle, current_loop = True, anim_i = 0, frame_ms = 300,
      label_pixmap = demo_idle ! 0, label_pos = (8, 68), anim_timer = Some 300,
      behavior_timer = Some 8007, behavior_starts = 1, rand = (\<lambda>n. 7), rand_pos = 1,
      out = [], drag_offset = None, window_pos = (100, 100)\<rparr>"

text \<open>
  Example pointer events: a left press at \<open>(110, 110)\<close>, a move to \<open>(150, 140)\<close> with
  the left button held, and the same move with only the right button held.
\<close>

definition demo_press :: mouse_event where
  "demo_press = \<lparr>button = LeftButton, buttons = {LeftButton}, global_pos = (110, 110)\<rparr>"

definition demo_move :: mouse_event where
  "demo_move = \<lparr>button = NoButton, buttons = {LeftButton}, global_pos = (150, 140)\<rparr>"

definition demo_move_right :: mouse_event where
  "demo_move_right = \<lparr>button = NoButton, buttons = {RightButton}, global_pos = (150, 140)\<rparr>"

text \<open>
  An example folder: two PNG files, and an \<open>order.txt\<close> of blank and comment lines.
\<close>

definition demo_folder :: anim_folder where
  "demo_folder =
     \<lparr>order_txt = Some ['''', ''  # frames follow'', ''#a.png'', ''   ''],
      png_glob = [''b.png'', ''a.png''],
      file_at = (\<lambda>name. Decodes \<lparr>pix_width = 64, pix_height = 64, pix_id = length name\<rparr>)\<rparr>"

text \<open>
  What the loop body makes of one pixel value: the new value of the pixel it visits.
\<close>

definition keyed :: "int \<times> int \<times> int \<Rightarrow> rgba \<Rightarrow> rgba" where
  "keyed key_rgb p =
     (case px_read p of (r, g, b, a) \<Rightarrow>
        let d = dist_rgb (r, g, b) key_rgb
        in if d \<le> real_of_int THRESH then px_write (r, g, b, 0)
           else if d < real_of_int (THRESH + SOFT) then
             px_write (r, g, b, min a (py_int (255 * ((d - real_of_int THRESH) / real_of_int SOFT))))
           else p)"

text \<open>The alpha channel of a pixel, as the integer Python reads.\<close>

definition px_alpha :: "rgba \<Rightarrow> int" where
  "px_alpha p = (case p of (r, g, b, a) \<Rightarrow> uint a)"

text \<open>
  An example image, one row of four pixels: at distance 74 from black, black itself,
  white, and at distance 35 from black.
\<close>

definition demo_img :: image where
  "demo_img =
     \<lparr>img_w = 4, img_h = 1,
      img_px = (\<lambda>q. if q = (0, 0) then (74, 0, 0, 255)
                     else if q = (1, 0) then (0, 0, 0, 255)
                     else if q = (2, 0) then (255, 255, 255, 200)
                     else (0, 35, 0, 255))\<rparr>"

text \<open>
  The colours at the twelve sample positions, in sample order.
\<close>

definition sample_colors :: "image \<Rightarrow> rgb list" where
  "sample_colors img =
     map (\<lambda>p. case img_px img (nat (fst p), nat (snd p)) of (r, g, b, a) \<Rightarrow> (r, g, b))
       (samples (int (img_w img)) (int (img_h img)))"

text \<open>
  A position inside the image.
\<close>

definition in_bounds :: "image \<Rightarrow> int \<times> int \<Rightarrow> bool" where
  "in_bounds img p =
     (0 \<le> fst p \<and> fst p < int (img_w img) \<and> 0 \<le> snd p \<and> snd p < int (img_h img))"

text \<open>
  An example image of two pixels, blue then white: its samples alternate, six of each.
\<close>

definition demo_two :: image where
  "demo_two =
     \<lparr>img_w = 2, img_h = 1,
      img_px = (\<lambda>q. if q = (0, 0) then (0, 0, 255, 255) else (255, 255, 255, 255))\<rparr>"

text \<open>
  An iteration order of a set of colours. On the two colours of \<open>demo_two\<close> it lists
  white before blue, as the hash table of CPython 3.11 does for these two tuples.
\<close>

definition demo_set_iter :: "rgb list \<Rightarrow> rgb list" where
  "demo_set_iter cs = rev (remdups cs)"

text \<open>
  A second iteration order: the members of the set among the four colours of \<open>demo_img\<close>,
  in the order in which CPython 3.11 iterates over the set of these four tuples.
\<close>

definition demo_img_iter :: "rgb list \<Rightarrow> rgb list" where
  "demo_img_iter cs =
     filter (\<lambda>c. c \<in> set cs) [(0, 35, 0), (74, 0, 0), (0, 0, 0), (255, 255, 255)]"

text \<open>
  What the body of the loop does with one file: the exception that leaves it, or the
  path, the key and the image it saves.
\<close>

definition attempt ::
  "(rgb list \<Rightarrow> rgb list) \<Rightarrow> string \<times> (py_error + image) \<Rightarrow> py_error + (string \<times> rgb \<times> image)" where
  "attempt set_iter f =
     (case snd f of
        Inl e \<Rightarrow> Inl e
      | Inr img \<Rightarrow>
          (case auto_key set_iter img of
             Inl e \<Rightarrow> Inl e
           | Inr key \<Rightarrow> Inr (fst f, key, blue_to_alpha img (rgb_ints key))))"

text \<open>
  The effects of the files processed without error, added to those so far.
\<close>

definition after_files :: "bool \<Rightarrow> (string \<times> rgb \<times> image) list \<Rightarrow> batch \<Rightarrow> batch" where
  "after_files verbose done st =
     st\<lparr>saved := saved st @ map (\<lambda>(p, key, out_img). (p, out_img)) done,
        printed := printed st @ (if verbose then map (\<lambda>(p, key, out_img). KeyLine p key) done else [])\<rparr>"

text \<open>
  An example batch of three files, the second of which does not decode.
\<close>

definition demo_pngs :: "(string \<times> (py_error + image)) list" where
  "demo_pngs = [(''a.png'', Inr demo_two), (''b.png'', Inl DecodeError), (''c.png'', Inr demo_two)]"

section \<open>Properties of the animation engine\<close>

lemma play_noop: "dict_get (anims s) name [] = [] \<Longrightarrow> play name loop s = s"
  by (simp add: play_def)

lemma play_loaded:
  assumes "dict_get (anims s) name [] = fs" "fs \<noteq> []"
  shows "play name loop s =
     (set_pixmap (fs ! 0) (s\<lparr>current_anim := name, current_frames := fs,
                      current_loop := loop, anim_i := 0\<rparr>))
       \<lparr>frame_ms := dict_get anim_speeds name 100,
        out := out s @ [(name, dict_get anim_speeds name 100)],
        anim_timer := Some (dict_get anim_speeds name 100)\<rparr>"
  using assms by (simp add: play_def Let_def set_pixmap_def anim_speeds_def dict_get_def)

lemma tick_inner:
  assumes "current_frames s = fs" "anim_i s = int k" "Suc k < length fs"
  shows "tick_anim s = frame_at fs (Suc k) s"
  using assms by (auto simp: tick_anim_def Let_def frame_at_def nat_add_distrib add.commute)

lemma frame_at_fields [simp]:
  "current_frames (frame_at fs k s) = current_frames s"
  "anim_i (frame_at fs k s) = int k"
  "frame_at fs k (frame_at fs j s) = frame_at fs k s"
  by (simp_all add: frame_at_def set_pixmap_def Let_def)

lemma ticks_inner:
  assumes "current_frames s = fs" "anim_i s = 0" "k < length fs" "s = frame_at fs 0 s"
  shows "(tick_anim ^^ k) s = frame_at fs k s"
  using assms(3)
proof (induction k)
  case 0
  then show ?case using assms by simp
next
  case (Suc k)
  then have "(tick_anim ^^ k) s = frame_at fs k s" by simp
  moreover have "tick_anim (frame_at fs k s) = frame_at fs (Suc k) (frame_at fs k s)"
    using Suc.prems assms(1) by (intro tick_inner) simp_all
  ultimately show ?case by simp
qed

lemma tick_last_loop:
  assumes "current_frames s = fs" "anim_i s = int k" "Suc k = length fs" "current_loop s"
  shows "tick_anim s = frame_at fs 0 s"
  using assms by (auto simp: tick_anim_def Let_def frame_at_def)

lemma tick_last_once:
  assumes "current_frames s = fs" "anim_i s = int k" "Suc k = length fs" "\<not> current_loop s"
  shows "tick_anim s = schedule_next_action (play ''idle'' True (s\<lparr>anim_i := int (length fs)\<rparr>))"
proof -
  have "int (length (current_frames s)) = anim_i s + 1" using assms by simp
  moreover have "current_frames s \<noteq> []" using assms by auto
  ultimately show ?thesis using assms(1,4) by (simp add: tick_anim_def Let_def)
qed

lemma schedule_fields:
  "current_anim (schedule_next_action s) = current_anim s"
  "current_frames (schedule_next_action s) = current_frames s"
  "current_loop (schedule_next_action s) = current_loop s"
  "anim_i (schedule_next_action s) = anim_i s"
  "label_pixmap (schedule_next_action s) = label_pixmap s"
  "frame_ms (schedule_next_action s) = frame_ms s"
  "anims (schedule_next_action s) = anims s"
  "behavior_starts (schedule_next_action s) = Suc (behavior_starts s)"
  "behavior_timer (schedule_next_action s) \<noteq> None"
  by (simp_all add: schedule_next_action_def randint_def)

lemma play_fields:
  assumes "dict_get (anims s) name [] = fs" "fs \<noteq> []"
  shows "current_anim (play name loop s) = name"
    "current_frames (play name loop s) = fs"
    "current_loop (play name loop s) = loop"
    "anim_i (play name loop s) = 0"
    "label_pixmap (play name loop s) = fs ! 0"
    "anims (play name loop s) = anims s"
    "behavior_starts (play name loop s) = behavior_starts s"
    "frame_ms (play name loop s) = dict_get anim_speeds name 100"
    "anim_timer (play name loop s) = Some (dict_get anim_speeds name 100)"
    "frame_at fs 0 (play name loop s) = play name loop s"
  unfolding play_loaded[OF assms] by (simp_all add: set_pixmap_def Let_def frame_at_def)

lemma frame_at_more [simp]:
  "current_anim (frame_at fs k s) = current_anim s"
  "current_loop (frame_at fs k s) = current_loop s"
  "label_pixmap (frame_at fs k s) = fs ! k"
  "anims (frame_at fs k s) = anims s"
  "behavior_starts (frame_at fs k s) = behavior_starts s"
  "behavior_timer (frame_at fs k s) = behavior_timer s"
  "frame_ms (frame_at fs k s) = frame_ms s"
  "anims (frame_at fs k s\<lparr>anim_i := j\<rparr>) = anims s"
  "behavior_starts (frame_at fs k s\<lparr>anim_i := j\<rparr>) = behavior_starts s"
  by (simp_all add: frame_at_def set_pixmap_def Let_def)

text \<open>
  Claim C1. Let \<open>name\<close> be loaded with the non-empty frame list \<open>fs\<close>, and \<open>idle\<close> be
  loaded with a non-empty list. After \<open>play name loop\<close> the frame index is 0 and frame
  0 is shown. After \<open>k < length fs\<close> ticks the index is \<open>k\<close>, frame \<open>k\<close> of \<open>fs\<close> is
  shown, and the scheduler has not been started again. The tick number \<open>length fs\<close>, at
  which the index reaches \<open>length fs\<close>, gives back the state right after \<open>play\<close> when
  \<open>loop\<close> holds (so the cycle repeats); otherwise it leaves the engine in \<open>idle\<close>,
  looping, at index 0 with the first idle frame shown, and has started the scheduler's
  timer exactly once more.
\<close>

theorem play_then_tick_sequence:
  assumes a: "map_of (anims s) name = Some fs" "fs \<noteq> []"
    and i: "map_of (anims s) ''idle'' = Some idle" "idle \<noteq> []"
  shows "(anim_i (play name loop s) = 0 \<and> label_pixmap (play name loop s) = fs ! 0) \<and>
    (\<forall>k < length fs.
       anim_i ((tick_anim ^^ k) (play name loop s)) = int k \<and>
       label_pixmap ((tick_anim ^^ k) (play name loop s)) = fs ! k \<and>
       current_anim ((tick_anim ^^ k) (play name loop s)) = name \<and>
       current_frames ((tick_anim ^^ k) (play name loop s)) = fs \<and>
       behavior_starts ((tick_anim ^^ k) (play name loop s)) = behavior_starts s) \<and>
    (loop \<longrightarrow> (tick_anim ^^ length fs) (play name loop s) = play name loop s) \<and>
    (\<not> loop \<longrightarrow>
       current_anim ((tick_anim ^^ length fs) (play name loop s)) = ''idle'' \<and>
       current_frames ((tick_anim ^^ length fs) (play name loop s)) = idle \<and>
       current_loop ((tick_anim ^^ length fs) (play name loop s)) \<and>
       anim_i ((tick_anim ^^ length fs) (play name loop s)) = 0 \<and>
       label_pixmap ((tick_anim ^^ length fs) (play name loop s)) = idle ! 0 \<and>
       behavior_starts ((tick_anim ^^ length fs) (play name loop s)) = Suc (behavior_starts s) \<and>
       behavior_timer ((tick_anim ^^ length fs) (play name loop s)) \<noteq> None)"
proof -
  let ?p = "play name loop s"
  have g: "dict_get (anims s) name [] = fs" using a by (simp add: dict_get_def)
  note pf = play_fields[OF g a(2), of loop]
  have inner: "(tick_anim ^^ k) ?p = frame_at fs k ?p" if "k < length fs" for k
    using that pf by (intro ticks_inner) simp_all
  obtain n where n: "length fs = Suc n" using a(2) by (cases fs) auto
  have last: "(tick_anim ^^ length fs) ?p = tick_anim (frame_at fs n ?p)"
    using inner[of n] n by simp
  have c1: "anim_i ?p = 0 \<and> label_pixmap ?p = fs ! 0" using pf by simp
  have c2: "\<forall>k < length fs.
       anim_i ((tick_anim ^^ k) ?p) = int k \<and>
       label_pixmap ((tick_anim ^^ k) ?p) = fs ! k \<and>
       current_anim ((tick_anim ^^ k) ?p) = name \<and>
       current_frames ((tick_anim ^^ k) ?p) = fs \<and>
       behavior_starts ((tick_anim ^^ k) ?p) = behavior_starts s"
    using inner pf by simp
  have c3: "(tick_anim ^^ length fs) ?p = ?p" if loop
  proof -
    have "tick_anim (frame_at fs n ?p) = frame_at fs 0 (frame_at fs n ?p)"
      using pf n that by (intro tick_last_loop[where k = n]) simp_all
    then show ?thesis using last pf by simp
  qed
  have c4: "current_anim ((tick_anim ^^ length fs) ?p) = ''idle'' \<and>
       current_frames ((tick_anim ^^ length fs) ?p) = idle \<and>
       current_loop ((tick_anim ^^ length fs) ?p) \<and>
       anim_i ((tick_anim ^^ length fs) ?p) = 0 \<and>
       label_pixmap ((tick_anim ^^ length fs) ?p) = idle ! 0 \<and>
       behavior_starts ((tick_anim ^^ length fs) ?p) = Suc (behavior_starts s) \<and>
       behavior_timer ((tick_anim ^^ length fs) ?p) \<noteq> None" if "\<not> loop"
  proof -
    let ?q = "(frame_at fs n ?p)\<lparr>anim_i := int (length fs)\<rparr>"
    have t: "tick_anim (frame_at fs n ?p) = schedule_next_action (play ''idle'' True ?q)"
      using pf n that by (intro tick_last_once[where k = n]) simp_all
    have gi: "dict_get (anims ?q) ''idle'' [] = idle"
      using i pf by (simp add: dict_get_def)
    note qf = play_fields[OF gi i(2), of True]
    show ?thesis unfolding last t using qf pf by (simp add: schedule_fields)
  qed
  show ?thesis using c1 c2 c3 c4 by blast
qed

lemma demo_init: "buddy_init demo_loaded (\<lambda>n. 7) (100, 100) = Some demo_buddy"
  by (simp add: buddy_init_def demo_loaded_def demo_buddy_def demo_idle_def demo_wave_def
      dict_get_def compute_canvas_size_def canvas_step_def set_pixmap_def TOP_PAD_def
      schedule_next_action_def randint_def anim_speeds_def Let_def)

text \<open>
  Claim C6. When the name is not a key of the loaded animations, or its frame list is
  empty, \<open>play\<close> returns the state it was given: the current animation, the frame index,
  the loop mode, the frame interval, the frame on display and every other field are
  unchanged.
\<close>

theorem play_unavailable_noop:
  assumes "map_of (anims s) name = None \<or> map_of (anims s) name = Some []"
  shows "play name loop s = s"
  using assms by (auto simp: play_def dict_get_def)

theorem play_unavailable_noop_witness:
  "(map_of (anims demo_buddy) ''jump'' = None \<and> play ''jump'' False demo_buddy = demo_buddy) \<and>
   (map_of (anims demo_buddy) ''empty'' = Some [] \<and> play ''empty'' True demo_buddy = demo_buddy)"
proof -
  have h1: "map_of (anims demo_buddy) ''jump'' = None"
    by (simp add: demo_buddy_def demo_loaded_def)
  have h2: "map_of (anims demo_buddy) ''empty'' = Some []"
    by (simp add: demo_buddy_def demo_loaded_def)
  show ?thesis
    using h1 h2 play_unavailable_noop[of demo_buddy "''jump''" False]
      play_unavailable_noop[of demo_buddy "''empty''" True] by simp
qed

theorem play_then_tick_sequence_witness:
  "map_of (anims demo_buddy) ''wave'' = Some demo_wave \<and> demo_wave \<noteq> [] \<and>
   map_of (anims demo_buddy) ''idle'' = Some demo_idle \<and> demo_idle \<noteq> [] \<and>
   anim_i (play ''wave'' False demo_buddy) = 0 \<and>
   label_pixmap ((tick_anim ^^ 3) (play ''wave'' False demo_buddy)) = demo_wave ! 3 \<and>
   current_anim ((tick_anim ^^ 4) (play ''wave'' False demo_buddy)) = ''idle'' \<and>
   label_pixmap ((tick_anim ^^ 4) (play ''wave'' False demo_buddy)) = demo_idle ! 0 \<and>
   behavior_starts ((tick_anim ^^ 4) (play ''wave'' False demo_buddy)) = 2 \<and>
   (tick_anim ^^ 4) (play ''wave'' True demo_buddy) = play ''wave'' True demo_buddy"
proof -
  have h1: "map_of (anims demo_buddy) ''wave'' = Some demo_wave"
    by (simp add: demo_buddy_def demo_loaded_def)
  have h2: "demo_wave \<noteq> []" by (simp add: demo_wave_def)
  have h3: "map_of (anims demo_buddy) ''idle'' = Some demo_idle"
    by (simp add: demo_buddy_def demo_loaded_def)
  have h4: "demo_idle \<noteq> []" by (simp add: demo_idle_def)
  have l: "length demo_wave = 4" by (simp add: demo_wave_def)
  have b: "behavior_starts demo_buddy = 1" by (simp add: demo_buddy_def)
  show ?thesis
    using play_then_tick_sequence[OF h1 h2 h3 h4, of False]
      play_then_tick_sequence[OF h1 h2 h3 h4, of True] h1 h2 h3 h4
    by (simp add: l b)
qed

lemma set_pixmap_inv_fields:
  "anims (set_pixmap p s) = anims s"
  "current_frames (set_pixmap p s) = current_frames s"
  "current_anim (set_pixmap p s) = current_anim s"
  "anim_i (set_pixmap p s) = anim_i s"
  by (simp_all add: set_pixmap_def Let_def)

lemma schedule_engine_inv: "engine_inv s \<Longrightarrow> engine_inv (schedule_next_action s)"
  by (simp add: engine_inv_def frame_inv_def schedule_fields)

lemma play_engine_inv:
  assumes "engine_inv s"
  shows "engine_inv (play name loop s)"
proof (cases "dict_get (anims s) name [] = []")
  case True
  then show ?thesis using assms by (simp add: play_noop)
next
  case False
  note pf = play_fields[OF refl False, of loop]
  show ?thesis using assms False unfolding engine_inv_def frame_inv_def
    by (simp add: pf)
qed

lemma play_idle_engine_inv:
  assumes "distinct (map fst (anims s))" "dict_get (anims s) ''idle'' [] \<noteq> []"
  shows "engine_inv (play ''idle'' loop s)"
proof -
  note pf = play_fields[OF refl assms(2), of loop]
  show ?thesis using assms unfolding engine_inv_def frame_inv_def by (simp add: pf)
qed

lemma tick_engine_inv:
  assumes "engine_inv s"
  shows "engine_inv (tick_anim s)"
proof -
  have ne: "current_frames s \<noteq> []" using assms by (simp add: engine_inv_def frame_inv_def)
  show ?thesis
  proof (cases "anim_i s + 1 \<ge> int (length (current_frames s))")
    case False
    then have "tick_anim s = set_pixmap (current_frames s ! nat (anim_i s + 1)) (s\<lparr>anim_i := anim_i s + 1\<rparr>)"
      using ne by (simp add: tick_anim_def Let_def)
    then show ?thesis using assms False
      by (simp add: engine_inv_def frame_inv_def set_pixmap_inv_fields)
  next
    case True
    show ?thesis
    proof (cases "current_loop s")
      case l: True
      then have "tick_anim s = set_pixmap (current_frames s ! nat 0) (s\<lparr>anim_i := 0\<rparr>)"
        using ne True by (simp add: tick_anim_def Let_def)
      then show ?thesis using assms
        by (simp add: engine_inv_def frame_inv_def set_pixmap_inv_fields)
    next
      case l: False
      then have "tick_anim s = schedule_next_action (play ''idle'' True (s\<lparr>anim_i := anim_i s + 1\<rparr>))"
        using ne True by (simp add: tick_anim_def Let_def)
      moreover have "engine_inv (play ''idle'' True (s\<lparr>anim_i := anim_i s + 1\<rparr>))"
        using assms by (intro play_idle_engine_inv) (simp_all add: engine_inv_def)
      ultimately show ?thesis by (simp add: schedule_engine_inv)
    qed
  qed
qed

lemma choice_fields:
  "anims (snd (choice xs s)) = anims s"
  "current_frames (snd (choice xs s)) = current_frames s"
  "current_anim (snd (choice xs s)) = current_anim s"
  "anim_i (snd (choice xs s)) = anim_i s"
  "xs \<noteq> [] \<Longrightarrow> fst (choice xs s) \<in> set xs"
  by (simp_all add: choice_def)

lemma choice_engine_inv: "engine_inv s \<Longrightarrow> engine_inv (snd (choice xs s))"
  by (simp add: engine_inv_def frame_inv_def choice_fields)

lemma do_random_action_engine_inv:
  assumes "engine_inv s"
  shows "engine_inv (do_random_action s)"
  using assms
  by (auto simp: do_random_action_def Let_def split_def
      intro: schedule_engine_inv play_engine_inv choice_engine_inv)

lemma apply_op_engine_inv: "engine_inv s \<Longrightarrow> engine_inv (apply_op op s)"
  by (cases op) (simp_all add: play_engine_inv tick_engine_inv do_random_action_engine_inv)

lemma run_ops_engine_inv: "engine_inv s \<Longrightarrow> engine_inv (run_ops ops s)"
  unfolding run_ops_def by (induction ops arbitrary: s) (simp_all add: apply_op_engine_inv)

lemma distinct_fold_update:
  "distinct (map fst acc) \<Longrightarrow>
   distinct (map fst (fold (\<lambda>(name, frames) acc. AList.update name frames acc) loaded acc))"
  by (induction loaded arbitrary: acc) (auto simp: distinct_update)

lemma init_engine_inv:
  assumes "buddy_init loaded rnd pos = Some s0"
  shows "engine_inv s0"
proof -
  let ?d = "fold (\<lambda>(name, frames) acc. AList.update name frames acc) loaded []"
  have ne: "dict_get ?d ''idle'' [] \<noteq> []"
    using assms by (auto simp: buddy_init_def Let_def split: if_splits)
  have d: "distinct (map fst ?d)" by (rule distinct_fold_update) simp
  obtain s2 where s0: "s0 = schedule_next_action s2" and
    f: "anims s2 = ?d" "current_frames s2 = dict_get ?d ''idle'' []" "anim_i s2 = 0"
       "current_anim s2 = ''idle''"
    using assms ne
    by (auto simp: buddy_init_def Let_def split_def set_pixmap_def)
  have "engine_inv s2" using ne d f by (simp add: engine_inv_def frame_inv_def)
  then show ?thesis unfolding s0 by (rule schedule_engine_inv)
qed

text \<open>
  Claim C7. In every state the engine reaches from its constructor by any sequence of
  \<open>play\<close>, \<open>tick_anim\<close> and \<open>do_random_action\<close> calls, the running frame sequence is
  not empty, it is the one loaded under the current name, and the frame index is at
  least 0 and below its length; and each of the three operations, run in such a state,
  leaves a state of which the same holds.
\<close>

theorem engine_ops_keep_frame_invariant:
  assumes "buddy_init loaded rnd pos = Some s0"
  shows "frame_inv (run_ops ops s0) \<and>
         frame_inv (play name loop (run_ops ops s0)) \<and>
         frame_inv (tick_anim (run_ops ops s0)) \<and>
         frame_inv (do_random_action (run_ops ops s0))"
proof -
  have "engine_inv (run_ops ops s0)"
    using assms by (intro run_ops_engine_inv init_engine_inv)
  then show ?thesis
    using play_engine_inv tick_engine_inv do_random_action_engine_inv
    by (simp add: engine_inv_def)
qed

theorem engine_ops_keep_frame_invariant_witness:
  "buddy_init demo_loaded (\<lambda>n. 7) (100, 100) = Some demo_buddy \<and>
   frame_inv (run_ops [Fire, Tick, Tick, Tick, Tick, Play ''empty'' False] demo_buddy) \<and>
   frame_inv (play ''wave'' False
     (run_ops [Fire, Tick, Tick, Tick, Tick, Play ''empty'' False] demo_buddy)) \<and>
   frame_inv (tick_anim
     (run_ops [Fire, Tick, Tick, Tick, Tick, Play ''empty'' False] demo_buddy)) \<and>
   frame_inv (do_random_action
     (run_ops [Fire, Tick, Tick, Tick, Tick, Play ''empty'' False] demo_buddy))"
  using engine_ops_keep_frame_invariant[OF demo_init,
      of "[Fire, Tick, Tick, Tick, Tick, Play ''empty'' False]" "''wave''" False] demo_init
  by simp

text \<open>
  Claim C8, as stated, fails. With the window at \<open>(100, 100)\<close>, a left press at
  \<open>(110, 110)\<close> captures the offset \<open>(10, 10)\<close>. A pointer-move to \<open>(150, 140)\<close> whose
  event reports only the right button as held finds the offset present and still does
  not move the window to pointer minus offset: \<open>mouseMoveEvent\<close> also tests
  \<open>event.buttons() & Qt.LeftButton\<close>.
\<close>

theorem drag_ignores_offset_without_left_button:
  "drag_offset (mousePressEvent demo_press demo_buddy) = Some (10, 10) \<and>
   window_pos (mouseMoveEvent demo_move_right (mousePressEvent demo_press demo_buddy)) \<noteq>
     point_sub (global_pos demo_move_right) (10, 10)"
  by (simp add: mousePressEvent_def mouseMoveEvent_def demo_press_def demo_move_right_def
      demo_buddy_def point_sub_def)

text \<open>
  Claim C8, amended. While the captured offset is present and the move event reports
  the left button as held, a pointer-move relocates the window to the pointer position
  minus the captured offset. A pointer-move without a captured offset, or without the
  left button held, changes nothing; press and release events never move the window.
  The instance proved after it is the scenario of the specification: a grab at offset
  \<open>(10, 10)\<close> and a move to \<open>(150, 140)\<close> put the window at \<open>(140, 130)\<close>.
\<close>

theorem drag_moves_window:
  "(drag_offset s = Some off \<and> LeftButton \<in> buttons event \<longrightarrow>
      window_pos (mouseMoveEvent event s) = point_sub (global_pos event) off) \<and>
   (drag_offset s = None \<or> LeftButton \<notin> buttons event \<longrightarrow> mouseMoveEvent event s = s) \<and>
   window_pos (mousePressEvent event s) = window_pos s \<and>
   window_pos (mouseReleaseEvent event s) = window_pos s"
  by (auto simp: mouseMoveEvent_def mousePressEvent_def mouseReleaseEvent_def
      split: option.splits)

theorem drag_moves_window_witness:
  "(drag_offset (mousePressEvent demo_press demo_buddy) = Some (10, 10) \<and>
    LeftButton \<in> buttons demo_move \<and>
    window_pos (mouseMoveEvent demo_move (mousePressEvent demo_press demo_buddy)) = (140, 130)) \<and>
   (drag_offset demo_buddy = None \<and> mouseMoveEvent demo_move demo_buddy = demo_buddy) \<and>
   (LeftButton \<notin> buttons demo_move_right \<and>
    mouseMoveEvent demo_move_right (mousePressEvent demo_press demo_buddy) =
      mousePressEvent demo_press demo_buddy)"
proof -
  have h1: "drag_offset (mousePressEvent demo_press demo_buddy) = Some (10, 10)"
    by (simp add: mousePressEvent_def demo_press_def demo_buddy_def point_sub_def)
  have h2: "LeftButton \<in> buttons demo_move" by (simp add: demo_move_def)
  have h3: "drag_offset demo_buddy = None" by (simp add: demo_buddy_def)
  have h4: "LeftButton \<notin> buttons demo_move_right" by (simp add: demo_move_right_def)
  have p: "point_sub (global_pos demo_move) (10, 10) = (140, 130)"
    by (simp add: demo_move_def point_sub_def)
  show ?thesis
    using drag_moves_window[of "mousePressEvent demo_press demo_buddy" "(10, 10)" demo_move]
      drag_moves_window[of demo_buddy "(10, 10)" demo_move]
      drag_moves_window[of "mousePressEvent demo_press demo_buddy" "(10, 10)" demo_move_right]
      h1 h2 h3 h4 p
    by simp
qed

lemma order_paths_skipped:
  "\<forall>l \<in> set ls. strip l = [] \<or> startswith (strip l) ''#'' \<Longrightarrow> order_paths ls = []"
  by (induction ls) (simp_all add: Let_def)

text \<open>
  Claim C10. Without an \<open>order.txt\<close> the frames are the decodable files among the
  sorted \<open>*.png\<close> names. With an \<open>order.txt\<close> they are the decodable files among the names
  the file lists, whatever PNG files the folder holds. An \<open>order.txt\<close> whose lines are
  all blank or comments gives no frames at all, and \<open>play\<close> on an animation loaded so
  changes nothing.
\<close>

theorem order_file_decides_frame_source:
  "(order_txt folder = None \<longrightarrow>
      load_frames folder = decode_paths (file_at folder) (sort (png_glob folder))) \<and>
   (order_txt folder = Some ls \<longrightarrow>
      load_frames folder = decode_paths (file_at folder) (order_paths ls) \<and>
      load_frames (folder\<lparr>png_glob := g\<rparr>) = load_frames folder) \<and>
   (order_txt folder = Some ls \<and> (\<forall>l \<in> set ls. strip l = [] \<or> startswith (strip l) ''#'') \<longrightarrow>
      load_frames folder = [] \<and>
      (map_of (anims s) name = Some (load_frames folder) \<longrightarrow> play name loop s = s))"
  by (auto simp: load_frames_def order_paths_skipped play_noop dict_get_def)

theorem order_file_decides_frame_source_witness:
  "(order_txt demo_folder = Some ['''', ''  # frames follow'', ''#a.png'', ''   ''] \<and>
    strip '''' = [] \<and> startswith (strip ''  # frames follow'') ''#'' \<and>
    startswith (strip ''#a.png'') ''#'' \<and> strip ''   '' = [] \<and>
    load_frames demo_folder = [] \<and>
    load_frames (demo_folder\<lparr>png_glob := []\<rparr>) = load_frames demo_folder) \<and>
   (order_txt (demo_folder\<lparr>order_txt := None\<rparr>) = None \<and>
    load_frames (demo_folder\<lparr>order_txt := None\<rparr>) =
      decode_paths (file_at demo_folder) [''a.png'', ''b.png''])"
proof -
  have h1: "order_txt demo_folder = Some ['''', ''  # frames follow'', ''#a.png'', ''   '']"
    by (simp add: demo_folder_def)
  have h2: "\<forall>l \<in> set ['''', ''  # frames follow'', ''#a.png'', ''   ''].
        strip l = [] \<or> startswith (strip l) ''#''"
    by (simp add: strip_def startswith_def is_space_def)
  have h3: "order_txt (demo_folder\<lparr>order_txt := None\<rparr>) = None" by simp
  have h4: "strip '''' = [] \<and> startswith (strip ''  # frames follow'') ''#'' \<and>
    startswith (strip ''#a.png'') ''#'' \<and> strip ''   '' = []"
    by (simp add: strip_def startswith_def is_space_def)
  have s: "sort (png_glob (demo_folder\<lparr>order_txt := None\<rparr>)) = [''a.png'', ''b.png'']"
    by (simp add: demo_folder_def)
  show ?thesis
    using order_file_decides_frame_source[of demo_folder
        "['''', ''  # frames follow'', ''#a.png'', ''   '']" "[]" demo_buddy "''idle''" True]
      order_file_decides_frame_source[of "demo_folder\<lparr>order_txt := None\<rparr>"]
      h1 h2 h3 h4 s
    by simp
qed

section \<open>Properties of the chroma-key tool\<close>

lemma key_pixel_keyed: "key_pixel key_rgb y x px = px((x, y) := keyed key_rgb (px (x, y)))"
  by (auto simp: key_pixel_def keyed_def Let_def split: prod.splits)

lemma row_fold:
  "fold (\<lambda>x px'. key_pixel key_rgb y x px') [0..<w] px =
     (\<lambda>q. if snd q = y \<and> fst q < w then keyed key_rgb (px q) else px q)"
proof (induction w)
  case 0
  show ?case by simp
next
  case (Suc w)
  have "fold (\<lambda>x px'. key_pixel key_rgb y x px') [0..<Suc w] px =
      key_pixel key_rgb y w (fold (\<lambda>x px'. key_pixel key_rgb y x px') [0..<w] px)"
    by simp
  also have "\<dots> = key_pixel key_rgb y w
      (\<lambda>q. if snd q = y \<and> fst q < w then keyed key_rgb (px q) else px q)"
    by (simp only: Suc)
  also have "\<dots> = (\<lambda>q. if snd q = y \<and> fst q < Suc w then keyed key_rgb (px q) else px q)"
    by (auto simp: key_pixel_keyed fun_eq_iff less_Suc_eq)
  finally show ?case .
qed

lemma rows_fold:
  "fold (\<lambda>y px. fold (\<lambda>x px'. key_pixel key_rgb y x px') [0..<w] px) [0..<h] px =
     (\<lambda>q. if snd q < h \<and> fst q < w then keyed key_rgb (px q) else px q)"
proof (induction h)
  case 0
  show ?case by simp
next
  case (Suc h)
  let ?row = "\<lambda>y px. fold (\<lambda>x px'. key_pixel key_rgb y x px') [0..<w] px"
  have "fold ?row [0..<Suc h] px = ?row h (fold ?row [0..<h] px)"
    by simp
  also have "\<dots> = ?row h (\<lambda>q. if snd q < h \<and> fst q < w then keyed key_rgb (px q) else px q)"
    by (simp only: Suc)
  also have "\<dots> = (\<lambda>q. if snd q < Suc h \<and> fst q < w then keyed key_rgb (px q) else px q)"
    by (auto simp: row_fold fun_eq_iff less_Suc_eq)
  finally show ?case .
qed

lemma blue_to_alpha_px:
  "img_px (blue_to_alpha img key_rgb) q =
     (if fst q < img_w img \<and> snd q < img_h img then keyed key_rgb (img_px img q)
      else img_px img q)"
  by (simp add: blue_to_alpha_def Let_def rows_fold)

lemma blue_to_alpha_size:
  "img_w (blue_to_alpha img key_rgb) = img_w img"
  "img_h (blue_to_alpha img key_rgb) = img_h img"
  by (simp_all add: blue_to_alpha_def Let_def)

lemma write_read [simp]: "word_of_int (uint (w :: 8 word)) = w"
  by simp

lemma keyed_near:
  assumes "dist_rgb (uint r, uint g, uint b) key_rgb \<le> 35"
  shows "keyed key_rgb (r, g, b, a) = (r, g, b, 0)"
  using assms by (simp add: keyed_def px_read_def px_write_def THRESH_def)

lemma keyed_far:
  assumes "dist_rgb (uint r, uint g, uint b) key_rgb \<ge> 75"
  shows "keyed key_rgb (r, g, b, a) = (r, g, b, a)"
  using assms by (simp add: keyed_def px_read_def px_write_def THRESH_def SOFT_def)

lemma keyed_band:
  assumes "35 < dist_rgb (uint r, uint g, uint b) key_rgb" "dist_rgb (uint r, uint g, uint b) key_rgb < 75"
  shows "keyed key_rgb (r, g, b, a) =
     (r, g, b, word_of_int (min (uint a) \<lfloor>255 * (dist_rgb (uint r, uint g, uint b) key_rgb - 35) / 40\<rfloor>))"
  using assms by (simp add: keyed_def px_read_def px_write_def THRESH_def SOFT_def py_int_def)

lemma band_floor:
  assumes "35 < (d::real)" "d < 75"
  shows "0 \<le> \<lfloor>255 * (d - 35) / 40\<rfloor>" "\<lfloor>255 * (d - 35) / 40\<rfloor> < 255"
proof -
  show "0 \<le> \<lfloor>255 * (d - 35) / 40\<rfloor>" using assms by simp
  have "255 * (d - 35) / 40 < 255" using assms by simp
  then show "\<lfloor>255 * (d - 35) / 40\<rfloor> < 255" by linarith
qed

lemma uint_feather:
  assumes "0 \<le> k" 
  shows "uint (word_of_int (min (uint (a :: 8 word)) k) :: 8 word) = min (uint a) k"
proof -
  have "min (uint a) k < 256" using uint_bounded[of a] by simp
  moreover have "0 \<le> min (uint a) k" using assms by simp
  ultimately show ?thesis by (simp add: uint_word_of_int take_bit_eq_mod)
qed

lemma dist_rgb_self: "dist_rgb c c = 0"
  by (cases c) (simp add: dist_rgb_def)

lemma sqrt_74: "sqrt 5476 = 74"
  by (rule real_sqrt_unique) simp_all

lemma sqrt_35: "sqrt 1225 = 35"
  by (rule real_sqrt_unique) simp_all

lemma sqrt_far: "75 \<le> sqrt 195075"
  by (rule real_le_rsqrt) simp

text \<open>
  Claim C5. For a pixel inside the image: when its Euclidean RGB distance to the key is
  at most 35, the result has alpha 0 and the same red, green and blue; so it is for a
  pixel whose colour is the key itself; and when the distance is at least 75 the pixel
  is unchanged.
\<close>

theorem key_distance_thresholds:
  assumes "x < img_w img" "y < img_h img" "img_px img (x, y) = (r, g, b, a)"
  shows "(dist_rgb (uint r, uint g, uint b) key_rgb \<le> 35 \<longrightarrow>
            img_px (blue_to_alpha img key_rgb) (x, y) = (r, g, b, 0)) \<and>
         (key_rgb = (uint r, uint g, uint b) \<longrightarrow>
            img_px (blue_to_alpha img key_rgb) (x, y) = (r, g, b, 0)) \<and>
         (dist_rgb (uint r, uint g, uint b) key_rgb \<ge> 75 \<longrightarrow>
            img_px (blue_to_alpha img key_rgb) (x, y) = (r, g, b, a))"
proof -
  have p: "img_px (blue_to_alpha img key_rgb) (x, y) = keyed key_rgb (r, g, b, a)"
    using assms by (simp add: blue_to_alpha_px)
  have "dist_rgb (uint r, uint g, uint b) (uint r, uint g, uint b) \<le> 35"
    by (simp add: dist_rgb_self)
  then show ?thesis unfolding p by (auto simp: keyed_near keyed_far)
qed

theorem key_distance_thresholds_witness:
  "(1 < img_w demo_img \<and> 0 < img_h demo_img \<and> img_px demo_img (1, 0) = (0, 0, 0, 255) \<and>
    img_px (blue_to_alpha demo_img (0, 0, 0)) (1, 0) = (0, 0, 0, 0)) \<and>
   (3 < img_w demo_img \<and> img_px demo_img (3, 0) = (0, 35, 0, 255) \<and>
    dist_rgb (0, 35, 0) (0, 0, 0) \<le> 35 \<and>
    img_px (blue_to_alpha demo_img (0, 0, 0)) (3, 0) = (0, 35, 0, 0)) \<and>
   (2 < img_w demo_img \<and> img_px demo_img (2, 0) = (255, 255, 255, 200) \<and>
    dist_rgb (255, 255, 255) (0, 0, 0) \<ge> 75 \<and>
    img_px (blue_to_alpha demo_img (0, 0, 0)) (2, 0) = (255, 255, 255, 200))"
proof -
  have w: "1 < img_w demo_img" "3 < img_w demo_img" "2 < img_w demo_img" "0 < img_h demo_img"
    by (simp_all add: demo_img_def)
  have p1: "img_px demo_img (1, 0) = (0, 0, 0, 255)" by (simp add: demo_img_def)
  have p2: "img_px demo_img (2, 0) = (255, 255, 255, 200)" by (simp add: demo_img_def)
  have p3: "img_px demo_img (3, 0) = (0, 35, 0, 255)" by (simp add: demo_img_def)
  have d3: "dist_rgb (0, 35, 0) (0, 0, 0) \<le> 35" by (simp add: dist_rgb_def sqrt_35)
  have d2: "dist_rgb (255, 255, 255) (0, 0, 0) \<ge> 75" by (simp add: dist_rgb_def sqrt_far)
  show ?thesis
    using key_distance_thresholds[OF w(1) w(4) p1, of "(0, 0, 0)"]
      key_distance_thresholds[OF w(2) w(4) p3, of "(0, 0, 0)"]
      key_distance_thresholds[OF w(3) w(4) p2, of "(0, 0, 0)"]
      w p1 p2 p3 d2 d3
    by simp
qed

text \<open>
  Claim C9. The result has the width and height of the input, and at every position
  the red, green and blue bytes of the input; its alpha byte is at most the input's.
\<close>

theorem blue_to_alpha_changes_alpha_only:
  "img_w (blue_to_alpha img key_rgb) = img_w img \<and>
   img_h (blue_to_alpha img key_rgb) = img_h img \<and>
   (case img_px img q of (r, g, b, a) \<Rightarrow>
      case img_px (blue_to_alpha img key_rgb) q of (r', g', b', a') \<Rightarrow>
        r' = r \<and> g' = g \<and> b' = b \<and> a' \<le> a)"
proof -
  obtain r g b a where p: "img_px img q = (r, g, b, a)" by (cases "img_px img q") auto
  let ?d = "dist_rgb (uint r, uint g, uint b) key_rgb"
  have k: "case keyed key_rgb (r, g, b, a) of (r', g', b', a') \<Rightarrow>
        r' = r \<and> g' = g \<and> b' = b \<and> a' \<le> a"
  proof -
    consider "?d \<le> 35" | "35 < ?d" "?d < 75" | "75 \<le> ?d" by linarith
    then show ?thesis
    proof cases
      case 1
      then show ?thesis by (simp add: keyed_near)
    next
      case 2
      have "uint (word_of_int (min (uint a) \<lfloor>255 * (?d - 35) / 40\<rfloor>) :: 8 word) \<le> uint a"
        using band_floor(1)[OF 2] by (simp add: uint_feather)
      then show ?thesis using 2 by (simp add: keyed_band word_le_def)
    next
      case 3
      then show ?thesis by (simp add: keyed_far)
    qed
  qed
  show ?thesis using k p by (simp add: blue_to_alpha_size blue_to_alpha_px)
qed

text \<open>
  Claim C2, amended. For a pixel inside the image whose distance \<open>d\<close> to the key lies
  strictly between 35 and 75, the new alpha is the smaller of the original alpha and
  \<open>255 * (d - 35) / 40\<close> truncated to an integer; the colour bytes stay. At distance
  exactly 74 that is the smaller of the original alpha and 248.
\<close>

theorem feather_band_truncates:
  assumes "x < img_w img" "y < img_h img" "img_px img (x, y) = (r, g, b, a)"
    and "35 < dist_rgb (uint r, uint g, uint b) key_rgb" "dist_rgb (uint r, uint g, uint b) key_rgb < 75"
  shows "img_px (blue_to_alpha img key_rgb) (x, y) =
           (r, g, b, word_of_int (min (uint a) \<lfloor>255 * (dist_rgb (uint r, uint g, uint b) key_rgb - 35) / 40\<rfloor>)) \<and>
         px_alpha (img_px (blue_to_alpha img key_rgb) (x, y)) =
           min (uint a) \<lfloor>255 * (dist_rgb (uint r, uint g, uint b) key_rgb - 35) / 40\<rfloor> \<and>
         (dist_rgb (uint r, uint g, uint b) key_rgb = 74 \<longrightarrow>
            px_alpha (img_px (blue_to_alpha img key_rgb) (x, y)) = min (uint a) 248)"
proof -
  let ?d = "dist_rgb (uint r, uint g, uint b) key_rgb"
  have p: "img_px (blue_to_alpha img key_rgb) (x, y) =
      (r, g, b, word_of_int (min (uint a) \<lfloor>255 * (?d - 35) / 40\<rfloor>))"
    using assms by (simp add: blue_to_alpha_px keyed_band)
  have u: "px_alpha (img_px (blue_to_alpha img key_rgb) (x, y)) = min (uint a) \<lfloor>255 * (?d - 35) / 40\<rfloor>"
    unfolding p px_alpha_def using band_floor(1)[OF assms(4,5)] by (simp add: uint_feather)
  have f: "\<lfloor>255 * ((74::real) - 35) / 40\<rfloor> = 248" by simp
  have e: "px_alpha (img_px (blue_to_alpha img key_rgb) (x, y)) = min (uint a) 248"
    if "?d = 74"
    using u f unfolding that by (simp only:)
  show ?thesis using p u e by blast
qed

text \<open>
  Claim C2, as stated, fails. The pixel \<open>(74, 0, 0)\<close> with alpha 255 is at distance
  exactly 74 from the key \<open>(0, 0, 0)\<close>. The code computes \<open>int(255 * t)\<close>, which
  truncates 248.625 to 248; rounding, as the claim has it, gives 249.
\<close>

theorem feather_at_74_is_248_not_249:
  "dist_rgb (74, 0, 0) (0, 0, 0) = 74 \<and>
   img_px demo_img (0, 0) = (74, 0, 0, 255) \<and>
   px_alpha (img_px (blue_to_alpha demo_img (0, 0, 0)) (0, 0)) = 248 \<and>
   min (px_alpha (img_px demo_img (0, 0))) (round (255 * (74 - 35) / 40 :: real)) = 249"
proof -
  have d: "dist_rgb (74, 0, 0) (0, 0, 0) = 74" by (simp add: dist_rgb_def sqrt_74)
  have p: "img_px demo_img (0, 0) = (74, 0, 0, 255)" by (simp add: demo_img_def)
  have k: "keyed (0, 0, 0) (74, 0, 0, 255) = (74, 0, 0, 248)"
    using keyed_band[of 74 0 0 "(0, 0, 0)" 255] d by simp
  have o: "img_px (blue_to_alpha demo_img (0, 0, 0)) (0, 0) = (74, 0, 0, 248)"
    by (simp add: blue_to_alpha_px p k) (simp add: demo_img_def)
  have r: "round (255 * (74 - 35) / 40 :: real) = 249" by (simp add: round_def)
  show ?thesis using d p o r by (simp add: px_alpha_def)
qed

theorem feather_band_truncates_witness:
  "0 < img_w demo_img \<and> 0 < img_h demo_img \<and> img_px demo_img (0, 0) = (74, 0, 0, 255) \<and>
   35 < dist_rgb (74, 0, 0) (0, 0, 0) \<and> dist_rgb (74, 0, 0) (0, 0, 0) < 75 \<and>
   dist_rgb (74, 0, 0) (0, 0, 0) = 74 \<and>
   px_alpha (img_px (blue_to_alpha demo_img (0, 0, 0)) (0, 0)) = 248"
proof -
  have w: "0 < img_w demo_img" "0 < img_h demo_img" by (simp_all add: demo_img_def)
  have p: "img_px demo_img (0, 0) = (74, 0, 0, 255)" by (simp add: demo_img_def)
  have d: "dist_rgb (74, 0, 0) (0, 0, 0) = 74" by (simp add: dist_rgb_def sqrt_74)
  have b: "35 < dist_rgb (uint (74 :: 8 word), uint (0 :: 8 word), uint (0 :: 8 word)) (0, 0, 0)"
    "dist_rgb (uint (74 :: 8 word), uint (0 :: 8 word), uint (0 :: 8 word)) (0, 0, 0) < 75"
    using d by simp_all
  show ?thesis
    using feather_band_truncates[OF w p b] w p d by (simp add: px_alpha_def)
qed

lemma samples_in_bounds:
  assumes "0 < img_w img" "0 < img_h img"
  shows "list_all (in_bounds img) (samples (int (img_w img)) (int (img_h img)))"
  using assms by (auto simp: samples_def raw_points_def clamp_point_def in_bounds_def)

lemma getpixels_in_bounds:
  "list_all (in_bounds img) ps \<Longrightarrow>
   getpixels img ps =
     Inr (map (\<lambda>p. case img_px img (nat (fst p), nat (snd p)) of (r, g, b, a) \<Rightarrow> (r, g, b)) ps)"
  by (induction ps) (auto simp: getpixel_def in_bounds_def split: prod.splits)

lemma getpixels_samples:
  assumes "0 < img_w img" "0 < img_h img"
  shows "getpixels img (samples (int (img_w img)) (int (img_h img))) = Inr (sample_colors img)"
  unfolding sample_colors_def by (rule getpixels_in_bounds[OF samples_in_bounds[OF assms]])

lemma max_from_ge: "x \<in> set (best # xs) \<Longrightarrow> f x \<le> f (max_from f best xs)"
proof (induction xs arbitrary: best x)
  case Nil
  then show ?case by simp
next
  case (Cons y ys)
  show ?case
  proof (cases "f y > f best")
    case True
    have "f best \<le> f (max_from f y ys)"
      using Cons.IH[of y y] True by simp
    then show ?thesis using Cons True by auto
  next
    case False
    have "f y \<le> f (max_from f best ys)"
      using Cons.IH[of best best] False by simp
    then show ?thesis using Cons False by auto
  qed
qed

lemma max_from_first:
  "\<exists>pre post. best # xs = pre @ max_from f best xs # post \<and>
     (\<forall>x \<in> set pre. f x < f (max_from f best xs)) \<and>
     (\<forall>x \<in> set post. f x \<le> f (max_from f best xs))"
proof (induction xs arbitrary: best)
  case Nil
  have "[best] = [] @ max_from f best [] # []" by simp
  then show ?case by fastforce
next
  case (Cons y ys)
  show ?case
  proof (cases "f y > f best")
    case True
    let ?c = "max_from f y ys"
    obtain pre post where p: "y # ys = pre @ ?c # post" "\<forall>x \<in> set pre. f x < f ?c"
      "\<forall>x \<in> set post. f x \<le> f ?c"
      using Cons.IH[of y] by blast
    have "f y \<le> f ?c" by (rule max_from_ge) simp
    then have b: "f best < f ?c" using True by simp
    have "best # y # ys = (best # pre) @ ?c # post" using p(1) by simp
    moreover have "\<forall>x \<in> set (best # pre). f x < f ?c" using p(2) b by simp
    ultimately have "\<exists>pre' post'. best # y # ys = pre' @ ?c # post' \<and>
        (\<forall>x \<in> set pre'. f x < f ?c) \<and> (\<forall>x \<in> set post'. f x \<le> f ?c)"
      using p(3) by blast
    then show ?thesis using True by simp
  next
    case False
    let ?c = "max_from f best ys"
    obtain pre post where p: "best # ys = pre @ ?c # post" "\<forall>x \<in> set pre. f x < f ?c"
      "\<forall>x \<in> set post. f x \<le> f ?c"
      using Cons.IH[of best] by blast
    have "\<exists>pre' post'. best # y # ys = pre' @ ?c # post' \<and>
        (\<forall>x \<in> set pre'. f x < f ?c) \<and> (\<forall>x \<in> set post'. f x \<le> f ?c)"
    proof (cases pre)
      case Nil
      have "best # ys = ?c # post" using p(1) unfolding Nil by (simp only: append_Nil)
      then have e: "best = ?c" "ys = post" by blast+
      have "best # y # ys = [] @ ?c # (y # ys)" using e(1) by simp
      moreover have "\<forall>x \<in> set (y # ys). f x \<le> f ?c"
        using False e p(3) by auto
      ultimately show ?thesis by fastforce
    next
      case (Cons b pre2)
      have "best # ys = b # (pre2 @ ?c # post)"
        using p(1) unfolding Cons by (simp only: append_Cons)
      then have e: "b = best" "ys = pre2 @ ?c # post" by blast+
      have "f best < f ?c" using p(2) Cons e(1) by simp
      then have "f y < f ?c" using False by simp
      then have "\<forall>x \<in> set (best # y # pre2). f x < f ?c" using p(2) Cons e(1) by simp
      moreover have "best # y # ys = (best # y # pre2) @ ?c # post" using e(2) by simp
      ultimately show ?thesis using p(3) by blast
    qed
    then show ?thesis using False by simp
  qed
qed

lemma py_max_first:
  assumes "xs \<noteq> []"
  shows "\<exists>c pre post. py_max xs f = Inr c \<and> xs = pre @ c # post \<and>
     (\<forall>x \<in> set pre. f x < f c) \<and> (\<forall>x \<in> set post. f x \<le> f c)"
proof -
  obtain y ys where xs: "xs = y # ys" using assms by (cases xs) auto
  show ?thesis unfolding xs py_max_def using max_from_first[of y ys f] by simp
qed

lemma sample_colors_length: "length (sample_colors img) = 12"
  by (simp add: sample_colors_def samples_def raw_points_def)

text \<open>
  Claim C4, amended. On an image with at least one pixel, \<open>auto_key\<close> reads twelve
  sample positions, all inside the image, and returns a colour that no other colour
  beats in the number of samples. Among the colours tied for the most samples it
  returns the one that the iteration order of the set lists first: every colour listed
  before the result has strictly fewer samples. So when one colour is strictly the
  most frequent, it is returned whatever that order is.
\<close>

theorem auto_key_most_frequent_sample:
  assumes "0 < img_w img" "0 < img_h img"
    and "set (set_iter (sample_colors img)) = set (sample_colors img)"
  shows "length (sample_colors img) = 12 \<and>
         list_all (in_bounds img) (samples (int (img_w img)) (int (img_h img))) \<and>
         (\<exists>c pre post. auto_key set_iter img = Inr c \<and> c \<in> set (sample_colors img) \<and>
              (\<forall>c'. count_list (sample_colors img) c' \<le> count_list (sample_colors img) c) \<and>
              set_iter (sample_colors img) = pre @ c # post \<and>
              (\<forall>x \<in> set pre. count_list (sample_colors img) x < count_list (sample_colors img) c) \<and>
              (\<forall>d. (\<forall>c'. c' \<noteq> d \<longrightarrow> count_list (sample_colors img) c' < count_list (sample_colors img) d)
                   \<longrightarrow> c = d))"
proof -
  let ?cs = "sample_colors img"
  have ne: "set_iter ?cs \<noteq> []"
  proof
    assume "set_iter ?cs = []"
    then have "set ?cs = {}" using assms(3) by simp
    then show False using sample_colors_length[of img] by auto
  qed
  obtain c pre post where c: "py_max (set_iter ?cs) (count_list ?cs) = Inr c"
    "set_iter ?cs = pre @ c # post"
    "\<forall>x \<in> set pre. count_list ?cs x < count_list ?cs c"
    "\<forall>x \<in> set post. count_list ?cs x \<le> count_list ?cs c"
    using py_max_first[OF ne] by blast
  have i: "c \<in> set ?cs" using c(2) assms(3) by (metis in_set_conv_decomp)
  have a: "auto_key set_iter img = Inr c"
    using c(1) by (simp add: auto_key_def Let_def getpixels_samples[OF assms(1,2)])
  have m: "count_list ?cs c' \<le> count_list ?cs c" for c'
  proof (cases "c' \<in> set ?cs")
    case True
    then have "c' \<in> set pre \<or> c' = c \<or> c' \<in> set post"
      using assms(3) c(2) by (metis Un_iff insert_iff list.simps(15) set_append)
    then show ?thesis using c(3,4) by (auto simp: less_imp_le)
  next
    case False
    then show ?thesis by (simp add: count_list_0_iff)
  qed
  have u: "c = d" if "\<forall>c'. c' \<noteq> d \<longrightarrow> count_list ?cs c' < count_list ?cs d" for d
  proof (rule ccontr)
    assume "c \<noteq> d"
    then have "count_list ?cs c < count_list ?cs d" using that by blast
    then show False using m[of d] by simp
  qed
  have "\<exists>c pre post. auto_key set_iter img = Inr c \<and> c \<in> set ?cs \<and>
      (\<forall>c'. count_list ?cs c' \<le> count_list ?cs c) \<and>
      set_iter ?cs = pre @ c # post \<and>
      (\<forall>x \<in> set pre. count_list ?cs x < count_list ?cs c) \<and>
      (\<forall>d. (\<forall>c'. c' \<noteq> d \<longrightarrow> count_list ?cs c' < count_list ?cs d) \<longrightarrow> c = d)"
    using a i m c(2,3) u by blast
  then show ?thesis
    using sample_colors_length[of img] samples_in_bounds[OF assms(1,2)] by blast
qed

lemma demo_two_colors:
  "sample_colors demo_two =
     [(0, 0, 255), (255, 255, 255), (0, 0, 255), (255, 255, 255), (0, 0, 255), (255, 255, 255),
      (0, 0, 255), (255, 255, 255), (0, 0, 255), (255, 255, 255), (0, 0, 255), (255, 255, 255)]"
  by (simp add: sample_colors_def samples_def raw_points_def clamp_point_def demo_two_def)

lemma demo_two_key: "auto_key demo_set_iter demo_two = Inr (255, 255, 255)"
proof -
  have w: "0 < img_w demo_two" "0 < img_h demo_two" by (simp_all add: demo_two_def)
  have i: "demo_set_iter (sample_colors demo_two) = [(255, 255, 255), (0, 0, 255)]"
    by (simp add: demo_two_colors demo_set_iter_def)
  have "auto_key demo_set_iter demo_two =
      py_max (demo_set_iter (sample_colors demo_two)) (count_list (sample_colors demo_two))"
    by (simp add: auto_key_def Let_def getpixels_samples[OF w])
  also have "\<dots> = py_max [(255, 255, 255), (0, 0, 255)] (count_list (sample_colors demo_two))"
    by (simp only: i)
  also have "\<dots> = Inr (255, 255, 255)"
    by (simp add: py_max_def demo_two_colors)
  finally show ?thesis .
qed

text \<open>
  Claim C4, as stated, fails on ties. In the image of a blue and a white pixel the
  samples alternate, six each, blue first. \<open>max\<close> runs over \<open>set(colors)\<close>, not over the
  samples: with white listed before blue, the result is white, not the colour met first
  in sample order.
\<close>

theorem auto_key_tie_follows_set_order:
  "first_most_frequent (sample_colors demo_two) = Some (0, 0, 255) \<and>
   set (demo_set_iter (sample_colors demo_two)) = set (sample_colors demo_two) \<and>
   distinct (demo_set_iter (sample_colors demo_two)) \<and>
   auto_key demo_set_iter demo_two = Inr (255, 255, 255)"
proof -
  have f: "first_most_frequent (sample_colors demo_two) = Some (0, 0, 255)"
    by (simp add: demo_two_colors first_most_frequent_def)
  have s: "set (demo_set_iter (sample_colors demo_two)) = set (sample_colors demo_two)"
    "distinct (demo_set_iter (sample_colors demo_two))"
    by (simp_all add: demo_set_iter_def)
  show ?thesis using f s demo_two_key by simp
qed

theorem auto_key_most_frequent_sample_witness:
  "0 < img_w demo_img \<and> 0 < img_h demo_img \<and>
   set (demo_img_iter (sample_colors demo_img)) = set (sample_colors demo_img) \<and>
   length (sample_colors demo_img) = 12 \<and>
   demo_img_iter (sample_colors demo_img) =
     [(0, 35, 0), (74, 0, 0), (0, 0, 0), (255, 255, 255)] \<and>
   count_list (sample_colors demo_img) (0, 35, 0) = 4 \<and>
   count_list (sample_colors demo_img) (74, 0, 0) = 4 \<and>
   auto_key demo_img_iter demo_img = Inr (0, 35, 0)"
proof -
  have w: "0 < img_w demo_img" "0 < img_h demo_img" by (simp_all add: demo_img_def)
  have cs: "sample_colors demo_img =
     [(74, 0, 0), (0, 0, 0), (74, 0, 0), (0, 35, 0), (255, 255, 255), (0, 35, 0),
      (74, 0, 0), (0, 0, 0), (74, 0, 0), (0, 35, 0), (255, 255, 255), (0, 35, 0)]"
    by (simp add: sample_colors_def samples_def raw_points_def clamp_point_def demo_img_def)
  have i: "demo_img_iter (sample_colors demo_img) =
      [(0, 35, 0), (74, 0, 0), (0, 0, 0), (255, 255, 255)]"
    by (simp add: cs demo_img_iter_def)
  have s: "set (demo_img_iter (sample_colors demo_img)) = set (sample_colors demo_img)"
    unfolding i by (auto simp: cs)
  have n: "count_list (sample_colors demo_img) (0, 35, 0) = 4"
    "count_list (sample_colors demo_img) (74, 0, 0) = 4"
    by (simp_all add: cs)
  have l: "length (sample_colors demo_img) = 12"
    using auto_key_most_frequent_sample[of demo_img demo_img_iter] w s by blast
  have "auto_key demo_img_iter demo_img =
      py_max (demo_img_iter (sample_colors demo_img)) (count_list (sample_colors demo_img))"
    by (simp add: auto_key_def Let_def getpixels_samples[OF w])
  also have "\<dots> = py_max [(0, 35, 0), (74, 0, 0), (0, 0, 0), (255, 255, 255)]
      (count_list (sample_colors demo_img))"
    by (simp only: i)
  also have "\<dots> = Inr (0, 35, 0)"
    by (simp add: py_max_def cs)
  finally have k: "auto_key demo_img_iter demo_img = Inr (0, 35, 0)" .
  show ?thesis using w s l i n k by simp
qed

lemma after_files_Nil [simp]: "after_files verbose [] st = st"
  by (simp add: after_files_def)

lemma after_files_Cons:
  "after_files verbose ((p, key, out_img) # done) st =
     after_files verbose done
       ((if verbose then st\<lparr>printed := printed st @ [KeyLine p key]\<rparr> else st)
          \<lparr>saved := saved (if verbose then st\<lparr>printed := printed st @ [KeyLine p key]\<rparr> else st)
             @ [(p, out_img)]\<rparr>)"
  by (simp add: after_files_def)

lemma process_files_all:
  "list_all (\<lambda>f. \<not> isl (attempt set_iter f)) pngs \<Longrightarrow>
   process_files set_iter verbose pngs st =
     Inr (after_files verbose (map (\<lambda>f. projr (attempt set_iter f)) pngs) st)"
proof (induction pngs arbitrary: st)
  case Nil
  show ?case by simp
next
  case (Cons f pngs)
  obtain p opened where f: "f = (p, opened)" by (cases f)
  from Cons.prems obtain img key where o: "opened = Inr img" "auto_key set_iter img = Inr key"
    by (auto simp: attempt_def f split: sum.splits)
  have a: "projr (attempt set_iter (p, Inr img)) = (p, key, blue_to_alpha img (rgb_ints key))"
    by (simp add: attempt_def o)
  show ?case
    using Cons.prems by (simp add: f o Let_def Cons.IH a after_files_Cons)
qed

lemma process_files_stop:
  assumes "list_all (\<lambda>f. \<not> isl (attempt set_iter f)) good" "attempt set_iter bad = Inl e"
  shows "process_files set_iter verbose (good @ bad # rest) st =
     Inl (e, after_files verbose (map (\<lambda>f. projr (attempt set_iter f)) good) st)"
  using assms(1)
proof (induction good arbitrary: st)
  case Nil
  obtain p opened where b: "bad = (p, opened)" by (cases bad)
  show ?case using assms(2) by (auto simp: b attempt_def split: sum.splits)
next
  case (Cons f good)
  obtain p opened where f: "f = (p, opened)" by (cases f)
  from Cons.prems obtain img key where o: "opened = Inr img" "auto_key set_iter img = Inr key"
    by (auto simp: attempt_def f split: sum.splits)
  have a: "projr (attempt set_iter (p, Inr img)) = (p, key, blue_to_alpha img (rgb_ints key))"
    by (simp add: attempt_def o)
  show ?case
    using Cons.prems by (simp add: f o Let_def Cons.IH a after_files_Cons)
qed

text \<open>
  Claim C3, amended. No exception is caught in \<open>process_folder\<close>. When a file fails to
  open or to be keyed, that exception leaves \<open>process_folder\<close> there: the files before
  it have been saved (and their key lines printed), the failing file and every file
  after it are not processed, nothing about the failing file is printed, and the script
  ends with exit status 1 without printing \<open>done\<close>. When no file fails, every file is
  saved and the exit status is 0.
\<close>

theorem batch_ends_at_first_failure:
  "(list_all (\<lambda>f. \<not> isl (attempt set_iter f)) good \<and> attempt set_iter bad = Inl e \<longrightarrow>
      process_folder set_iter True (good @ bad # rest) verbose =
        Inl (e, after_files verbose (map (\<lambda>f. projr (attempt set_iter f)) good)
                  \<lparr>saved = [], printed = (if verbose then [Found (length (good @ bad # rest))] else [])\<rparr>) \<and>
      main set_iter True (good @ bad # rest) =
        (1, after_files True (map (\<lambda>f. projr (attempt set_iter f)) good)
              \<lparr>saved = [], printed = [Found (length (good @ bad # rest))]\<rparr>)) \<and>
   (list_all (\<lambda>f. \<not> isl (attempt set_iter f)) pngs \<longrightarrow>
      process_folder set_iter True pngs verbose =
        Inr (after_files verbose (map (\<lambda>f. projr (attempt set_iter f)) pngs)
               \<lparr>saved = [], printed = (if verbose then [Found (length pngs)] else [])\<rparr>) \<and>
      fst (main set_iter True pngs) = 0)"
  by (simp add: process_folder_def main_def Let_def process_files_stop process_files_all)

text \<open>
  Claim C3, as stated, fails. Of three files the second does not decode: the run ends
  with that exception after saving the first file only; the third file, which would
  have been processed without error, is never reached, and no line reports the failure.
\<close>

theorem batch_aborts_on_bad_file:
  "process_folder demo_set_iter True demo_pngs True =
     Inl (DecodeError,
          \<lparr>saved = [(''a.png'', blue_to_alpha demo_two (255, 255, 255))],
           printed = [Found 3, KeyLine ''a.png'' (255, 255, 255)]\<rparr>) \<and>
   attempt demo_set_iter (''c.png'', Inr demo_two) =
     Inr (''c.png'', (255, 255, 255), blue_to_alpha demo_two (255, 255, 255))"
proof -
  show ?thesis
    by (simp add: process_folder_def demo_pngs_def demo_two_key attempt_def rgb_ints_def Let_def)
qed

theorem batch_ends_at_first_failure_witness:
  "(list_all (\<lambda>f. \<not> isl (attempt demo_set_iter f)) [(''a.png'', Inr demo_two)] \<and>
    attempt demo_set_iter (''b.png'', Inl DecodeError) = Inl DecodeError \<and>
    main demo_set_iter True demo_pngs =
      (1, \<lparr>saved = [(''a.png'', blue_to_alpha demo_two (255, 255, 255))],
           printed = [Found 3, KeyLine ''a.png'' (255, 255, 255)]\<rparr>)) \<and>
   (list_all (\<lambda>f. \<not> isl (attempt demo_set_iter f))
      [(''a.png'', Inr demo_two), (''c.png'', Inr demo_two)] \<and>
    fst (main demo_set_iter True [(''a.png'', Inr demo_two), (''c.png'', Inr demo_two)]) = 0)"
proof -
  have a: "attempt demo_set_iter (''a.png'', Inr demo_two) =
      Inr (''a.png'', (255, 255, 255), blue_to_alpha demo_two (255, 255, 255))"
    "attempt demo_set_iter (''c.png'', Inr demo_two) =
      Inr (''c.png'', (255, 255, 255), blue_to_alpha demo_two (255, 255, 255))"
    by (simp_all add: attempt_def demo_two_key rgb_ints_def)
  have b: "attempt demo_set_iter (''b.png'', Inl DecodeError) = Inl DecodeError"
    by (simp add: attempt_def)
  have g: "list_all (\<lambda>f. \<not> isl (attempt demo_set_iter f)) [(''a.png'', Inr demo_two)]"
    "list_all (\<lambda>f. \<not> isl (attempt demo_set_iter f))
      [(''a.png'', Inr demo_two), (''c.png'', Inr demo_two)]"
    by (simp_all add: a)
  have d: "demo_pngs = [(''a.png'', Inr demo_two)] @ (''b.png'', Inl DecodeError) #
      [(''c.png'', Inr demo_two)]"
    by (simp add: demo_pngs_def)
  show ?thesis
    using batch_ends_at_first_failure[of demo_set_iter "[(''a.png'', Inr demo_two)]"
        "(''b.png'', Inl DecodeError)" DecodeError "[(''c.png'', Inr demo_two)]" True
        "[(''a.png'', Inr demo_two), (''c.png'', Inr demo_two)]"] g b
    by (simp add: d a after_files_def)
qed

end
